theory Spec2Isabelle
  imports Main
begin

text \<open>
  The selection engine of the editor extension: single selections
  (\<^verbatim>\<open>src/api/selection.ts\<close>) and the collection of selections with its rotation and its
  merge of overlapping selections (\<^verbatim>\<open>src/api/selections.ts\<close>). Each function the claims
  speak of is a definition of the same name; the two loops of \<^verbatim>\<open>merge\<close> are recursive
  functions over the state the loops update.
\<close>

section \<open>Positions\<close>

text \<open>
  Modelled from the spec: \<^verbatim>\<open>vscode.Position\<close> is the editor's type, not part of the
  sources. The spec gives it as a pair of non-negative integers (line, character) with the
  total order "compare by line, then by character", and lists the comparison methods
  \<^verbatim>\<open>isBefore\<close>, \<^verbatim>\<open>isBeforeOrEqual\<close>, \<^verbatim>\<open>isAfter\<close>, \<^verbatim>\<open>isAfterOrEqual\<close>,
  \<^verbatim>\<open>isEqual\<close> the sources call.
\<close>

datatype position = Position (line: nat) (character: nat)

definition isBefore :: "position \<Rightarrow> position \<Rightarrow> bool" where
  "isBefore p q = (line p < line q \<or> (line p = line q \<and> character p < character q))"

definition isEqual :: "position \<Rightarrow> position \<Rightarrow> bool" where
  "isEqual p q = (line p = line q \<and> character p = character q)"

definition isBeforeOrEqual :: "position \<Rightarrow> position \<Rightarrow> bool" where
  "isBeforeOrEqual p q = (isBefore p q \<or> isEqual p q)"

definition isAfter :: "position \<Rightarrow> position \<Rightarrow> bool" where
  "isAfter p q = (\<not> isBeforeOrEqual p q)"

definition isAfterOrEqual :: "position \<Rightarrow> position \<Rightarrow> bool" where
  "isAfterOrEqual p q = (\<not> isBefore p q)"

text \<open>The order of the spec as the order of the type, so that \<open>min\<close>, \<open>max\<close> and the
  sorting functions of the library apply to positions.\<close>

instantiation position :: linorder
begin

definition less_position :: "position \<Rightarrow> position \<Rightarrow> bool" where
  "less_position p q = isBefore p q"

definition less_eq_position :: "position \<Rightarrow> position \<Rightarrow> bool" where
  "less_eq_position p q = isBeforeOrEqual p q"

instance
proof
  fix x y z :: position
  show "(x < y) = (x \<le> y \<and> \<not> y \<le> x)"
    by (cases x; cases y)
      (auto simp: less_position_def less_eq_position_def isBefore_def isBeforeOrEqual_def isEqual_def)
  show "x \<le> x"
    by (simp add: less_eq_position_def isBeforeOrEqual_def isEqual_def)
  show "x \<le> y \<Longrightarrow> y \<le> z \<Longrightarrow> x \<le> z"
    by (cases x; cases y; cases z)
      (auto simp: less_eq_position_def isBefore_def isBeforeOrEqual_def isEqual_def)
  show "x \<le> y \<Longrightarrow> y \<le> x \<Longrightarrow> x = y"
    by (cases x; cases y)
      (auto simp: less_eq_position_def isBefore_def isBeforeOrEqual_def isEqual_def)
  show "x \<le> y \<or> y \<le> x"
    by (cases x; cases y)
      (auto simp: less_eq_position_def isBefore_def isBeforeOrEqual_def isEqual_def)
qed

end

section \<open>Selections\<close>

text \<open>
  Modelled from the spec: \<^verbatim>\<open>vscode.Selection\<close> is the editor's type as well. A selection
  is built from its anchor and its active position (\<^verbatim>\<open>new vscode.Selection(anchor, active)\<close>);
  \<open>start\<close> is the smaller and \<open>end\<close> the larger of the two.

  The spec reads \<open>isReversed\<close> as \<open>active < anchor\<close>, which is false on an empty selection;
  the comment of \<^verbatim>\<open>isStrictlyReversed\<close> in the sources says the editor answers true on
  an empty selection. What the editor answers there is the argument \<open>emptyIsReversed\<close>;
  on a non-empty selection both readings agree.
\<close>

datatype selection = Selection (anchor: position) (active: position)

definition start :: "selection \<Rightarrow> position" where
  "start s = (if isBefore (anchor s) (active s) then anchor s else active s)"

definition end_sel :: "selection \<Rightarrow> position" where
  "end_sel s = (if isBefore (anchor s) (active s) then active s else anchor s)"

definition isEmpty :: "selection \<Rightarrow> bool" where
  "isEmpty s = isEqual (start s) (end_sel s)"

definition isReversed :: "bool \<Rightarrow> selection \<Rightarrow> bool" where
  "isReversed emptyIsReversed s =
     (if isEqual (anchor s) (active s) then emptyIsReversed else isBefore (active s) (anchor s))"

section \<open>Documents and the editing context\<close>

text \<open>
  Modelled from the spec: the document is an external capability; the sources read the
  text of a line (\<^verbatim>\<open>lineAt(n).text\<close>), which the editor refuses for a line that does not
  exist. A document is the list of its lines.
\<close>

type_synonym TextDocument = "string list"

datatype error = IllegalLine nat

definition lineAt :: "TextDocument \<Rightarrow> nat \<Rightarrow> error + string" where
  "lineAt doc n = (if n < length doc then Inr (doc ! n) else Inl (IllegalLine n))"

datatype SelectionBehavior = Caret | Character

datatype Direction = Backward | Forward

record Context =
  selectionBehavior :: SelectionBehavior
  document :: TextDocument

text \<open>
  Modelled from the spec: \<^verbatim>\<open>Positions.previous\<close> and \<^verbatim>\<open>Positions.next\<close> live in
  \<^verbatim>\<open>./positions\<close>, which is not among the sources. The spec: they "move one character,
  crossing line boundaries, returning no predecessor/successor at the document's start/end".
\<close>

definition Positions_previous :: "position \<Rightarrow> TextDocument \<Rightarrow> position option" where
  "Positions_previous p doc =
     (if 0 < character p then Some (Position (line p) (character p - 1))
      else if 0 < line p \<and> line p - 1 < length doc
        then Some (Position (line p - 1) (length (doc ! (line p - 1))))
      else None)"

definition Positions_next :: "position \<Rightarrow> TextDocument \<Rightarrow> position option" where
  "Positions_next p doc =
     (if line p < length doc \<and> character p < length (doc ! line p)
        then Some (Position (line p) (character p + 1))
      else if line p + 1 < length doc then Some (Position (line p + 1) 0)
      else None)"

section \<open>selection.ts\<close>

text \<open>\<^verbatim>\<open>forward\<close> and \<^verbatim>\<open>backward\<close>: the selection itself, or the one with anchor and
  active swapped.\<close>

definition forward :: "selection \<Rightarrow> selection" where
  "forward s = (if isAfterOrEqual (active s) (anchor s) then s else Selection (active s) (anchor s))"

definition backward :: "selection \<Rightarrow> selection" where
  "backward s = (if isBeforeOrEqual (active s) (anchor s) then s else Selection (active s) (anchor s))"

text \<open>\<^verbatim>\<open>endLine\<close>, \<^verbatim>\<open>endCharacter\<close>, \<^verbatim>\<open>endPosition\<close>. The subtraction \<open>endLine - 1\<close> is
  on natural numbers; lemma \<open>endLine_shift_pos\<close> below shows that it is only evaluated
  where \<open>endLine\<close> is positive.\<close>

definition endLine :: "selection \<Rightarrow> nat" where
  "endLine s =
     (let startLine = line (start s); e = end_sel s; endLine = line e; endCharacter = character e
      in if startLine \<noteq> endLine \<and> endCharacter = 0 then endLine - 1 else endLine)"

definition endCharacter :: "selection \<Rightarrow> TextDocument \<Rightarrow> error + nat" where
  "endCharacter s doc =
     (let startLine = line (start s); e = end_sel s; endLine = line e; endCharacter = character e
      in if startLine \<noteq> endLine \<and> endCharacter = 0
         then (case lineAt doc (endLine - 1) of
                 Inl err \<Rightarrow> Inl err
               | Inr text \<Rightarrow> Inr (length text + 1))
         else Inr endCharacter)"

definition endPosition :: "selection \<Rightarrow> TextDocument \<Rightarrow> error + position" where
  "endPosition s doc =
     (let l = endLine s
      in if l \<noteq> line (end_sel s)
         then (case lineAt doc l of
                 Inl err \<Rightarrow> Inl err
               | Inr text \<Rightarrow> Inr (Position l (length text)))
         else Inr (end_sel s))"

text \<open>\<^verbatim>\<open>isSingleCharacter\<close> and \<^verbatim>\<open>isNonDirectional\<close>. The subtractions
  \<^verbatim>\<open>end.character - 1\<close> and \<^verbatim>\<open>end.line - 1\<close> are on integers, as in the source;
  \<^verbatim>\<open>&&\<close> reads the line of the document only where \<^verbatim>\<open>end.character === 0\<close>.\<close>

definition isSingleCharacter :: "selection \<Rightarrow> TextDocument \<Rightarrow> error + bool" where
  "isSingleCharacter s doc =
     (let st = start s; e = end_sel s
      in if line st = line e then Inr (int (character st) = int (character e) - 1)
         else if int (line st) = int (line e) - 1 then
           (if character e = 0
            then (case lineAt doc (line st) of
                    Inl err \<Rightarrow> Inl err
                  | Inr text \<Rightarrow> Inr (length text = character st))
            else Inr False)
         else Inr False)"

definition isNonDirectional :: "bool \<Rightarrow> selection \<Rightarrow> Context \<Rightarrow> error + bool" where
  "isNonDirectional emptyIsReversed s ctx =
     (if selectionBehavior ctx = Character \<and> \<not> isReversed emptyIsReversed s
      then isSingleCharacter s (document ctx)
      else Inr False)"

text \<open>
  \<^verbatim>\<open>seekFrom\<close>. Its argument \<open>position\<close> is a \<^verbatim>\<open>Position\<close> object, and the tests
  \<^verbatim>\<open>position === selection.start\<close> and \<^verbatim>\<open>position === selection.end\<close> compare
  objects, not coordinates. So the argument is given as the object it is: the selection's
  own active position (\<^verbatim>\<open>selection.active\<close>, which is also the default of the
  parameter: \<open>None\<close>), its own anchor (\<^verbatim>\<open>selection.anchor\<close>, which \<^verbatim>\<open>shift\<close> passes), or
  another object, which is neither \<^verbatim>\<open>selection.start\<close> nor \<^verbatim>\<open>selection.end\<close> whatever
  its coordinates are.

  A selection built by \<^verbatim>\<open>new vscode.Selection(anchor, active)\<close> holds these two objects;
  \<^verbatim>\<open>selection.start\<close> and \<^verbatim>\<open>selection.end\<close> are the same two objects, the smaller one
  as the start. The anchor is the end exactly when the selection is reversed (what
  \<open>isReversed\<close> answers, on an empty selection too), and then the active position is the
  start; otherwise the anchor is the start and the active position is the end.
\<close>

datatype position_object = TheActive | TheAnchor | Another position

definition object_position :: "selection \<Rightarrow> position_object \<Rightarrow> position" where
  "object_position s r =
     (case r of TheActive \<Rightarrow> active s | TheAnchor \<Rightarrow> anchor s | Another p \<Rightarrow> p)"

definition is_start_object :: "bool \<Rightarrow> selection \<Rightarrow> position_object \<Rightarrow> bool" where
  "is_start_object emptyIsReversed s r =
     (case r of
        TheActive \<Rightarrow> isReversed emptyIsReversed s
      | TheAnchor \<Rightarrow> \<not> isReversed emptyIsReversed s
      | Another p \<Rightarrow> False)"

definition is_end_object :: "bool \<Rightarrow> selection \<Rightarrow> position_object \<Rightarrow> bool" where
  "is_end_object emptyIsReversed s r =
     (case r of
        TheActive \<Rightarrow> \<not> isReversed emptyIsReversed s
      | TheAnchor \<Rightarrow> isReversed emptyIsReversed s
      | Another p \<Rightarrow> False)"

definition seekFrom ::
  "bool \<Rightarrow> selection \<Rightarrow> Direction \<Rightarrow> position_object option \<Rightarrow> Context \<Rightarrow> position" where
  "seekFrom emptyIsReversed s direction position ctx =
     (let r = (case position of None \<Rightarrow> TheActive | Some given \<Rightarrow> given);
          position = object_position s r
      in if selectionBehavior ctx = Character then
           (let doc = document ctx
            in if direction = Forward
               then (if is_start_object emptyIsReversed s r then position
                     else (case Positions_previous position doc of
                             Some p \<Rightarrow> p | None \<Rightarrow> position))
               else (if is_end_object emptyIsReversed s r then position
                     else (case Positions_next position doc of
                             Some p \<Rightarrow> p | None \<Rightarrow> position)))
         else position)"

text \<open>\<^verbatim>\<open>fromStartEnd\<close>, on positions (the overload on offsets goes through the document's
  \<^verbatim>\<open>positionAt\<close> first and is not used by the merge).\<close>

definition fromStartEnd :: "position \<Rightarrow> position \<Rightarrow> bool \<Rightarrow> selection" where
  "fromStartEnd s e reversed = (if reversed then Selection e s else Selection s e)"

section \<open>selections.ts: the collection\<close>

text \<open>
  The class \<^verbatim>\<open>Selections\<close>: its array of selections and its primary selection. A field
  that holds \<^verbatim>\<open>undefined\<close> is \<open>None\<close>.
\<close>

record Selections =
  primarySelection :: "selection option"
  selections :: "selection list"

text \<open>\<^verbatim>\<open>sort\<close>: \<^verbatim>\<open>Array.prototype.sort\<close> with the comparison of the start positions; the
  sort of the language is stable, as \<open>sort_key\<close> is.\<close>

definition sort_sel :: "Selections \<Rightarrow> Selections" where
  "sort_sel S = S\<lparr>selections := sort_key start (selections S)\<rparr>"

text \<open>The constructor: \<^verbatim>\<open>primarySelection ?? selections[0]\<close>, then \<^verbatim>\<open>sort()\<close>. Reading
  index 0 of an empty array gives \<^verbatim>\<open>undefined\<close>; nothing is thrown.\<close>

definition Selections_new :: "selection list \<Rightarrow> selection option \<Rightarrow> Selections" where
  "Selections_new sels primary =
     sort_sel \<lparr>primarySelection =
         (case primary of
            Some p \<Rightarrow> Some p
          | None \<Rightarrow> (case sels of [] \<Rightarrow> None | s # _ \<Rightarrow> Some s)),
       selections = sels\<rparr>"

text \<open>
  \<^verbatim>\<open>rotate\<close>. \<^verbatim>\<open>indexOf\<close> gives the first index of the element, or \<open>-1\<close>; the
  remainder \<^verbatim>\<open>%\<close> of the language truncates towards zero and takes the sign of the
  dividend (and is \<^verbatim>\<open>NaN\<close>, here \<open>None\<close>, for a zero divisor); an index outside the
  array reads \<^verbatim>\<open>undefined\<close>. \<^verbatim>\<open>indexOf\<close> compares object identities: on an array of
  pairwise different selections that is equality, and only such arrays are used below.
  The step \<open>by\<close> is an integer; the numbers of the language are exact on integers up to
  \<open>2^53\<close>, beyond which the sum in the source would round.
\<close>

fun indexOfFrom :: "'a list \<Rightarrow> 'a \<Rightarrow> int \<Rightarrow> int" where
  "indexOfFrom [] x i = - 1"
| "indexOfFrom (y # ys) x i = (if y = x then i else indexOfFrom ys x (i + 1))"

definition indexOf :: "selection list \<Rightarrow> selection option \<Rightarrow> int" where
  "indexOf xs x = (case x of None \<Rightarrow> - 1 | Some s \<Rightarrow> indexOfFrom xs s 0)"

definition js_remainder :: "int \<Rightarrow> int \<Rightarrow> int option" where
  "js_remainder a b = (if b = 0 then None else Some (sgn a * (\<bar>a\<bar> mod \<bar>b\<bar>)))"

definition at_index :: "'a list \<Rightarrow> int option \<Rightarrow> 'a option" where
  "at_index xs k =
     (case k of
        None \<Rightarrow> None
      | Some i \<Rightarrow> (if 0 \<le> i \<and> i < int (length xs) then Some (xs ! nat i) else None))"

definition rotate :: "Selections \<Rightarrow> int \<Rightarrow> Selections" where
  "rotate S by' =
     (let primarySelectionIndex = indexOf (selections S) (primarySelection S)
      in S\<lparr>primarySelection :=
             at_index (selections S)
               (js_remainder (primarySelectionIndex + by') (int (length (selections S))))\<rparr>)"

section \<open>selections.ts: the merge\<close>

text \<open>
  The state of \<^verbatim>\<open>merge\<close>: the marks \<^verbatim>\<open>ignoreSelections\<close> (the indices whose byte is 1)
  and \<^verbatim>\<open>newSelections\<close> (\<open>None\<close> while undefined); inside the scan of one selection
  \<open>a\<close>, also its bounds \<open>aStart\<close>, \<open>aEnd\<close> and the flags \<open>aIsEmpty\<close> and \<open>changed\<close>.
\<close>

record merge_state =
  ignoreSelections :: "nat set"
  newSelections :: "selection list option"

record scan_state = merge_state +
  aStart :: position
  aEnd :: position
  aIsEmpty :: bool
  changed :: bool

text \<open>
  One round of the inner loop \<^verbatim>\<open>for (let j = i + 1; j < len; j++)\<close>, at index \<open>j\<close>: the
  state after the round and the index of the next round (\<open>j + 1\<close>, or \<open>i + 1\<close> after
  \<^verbatim>\<open>j = i\<close>).
\<close>

definition merge_inner_step ::
  "bool \<Rightarrow> selection list \<Rightarrow> nat \<Rightarrow> nat \<Rightarrow> scan_state \<Rightarrow> scan_state \<times> nat" where
  "merge_inner_step alsoMergeConsecutiveSelections sels i j st =
    (if j \<in> ignoreSelections st then (st, j + 1)
     else
       let b = sels ! j; bStart = start b; bEnd = end_sel b
       in if aIsEmpty st then
            (if isEqual bStart bEnd then
               (if isEqual bStart (aStart st)
                then (st\<lparr>ignoreSelections := insert j (ignoreSelections st), changed := True\<rparr>,
                      j + 1)
                else (st, j + 1))
             else if isBeforeOrEqual bStart (aStart st) \<and> isAfterOrEqual bEnd bStart
             then (st\<lparr>aStart := bStart, aEnd := bEnd, aIsEmpty := False, changed := True,
                      ignoreSelections := insert j (ignoreSelections st)\<rparr>,
                   j + 1)
             else (st, j + 1))
          else if isAfterOrEqual (aStart st) bStart \<and>
                  (isBefore (aStart st) bEnd \<or>
                   (alsoMergeConsecutiveSelections \<and> isEqual (aStart st) bEnd))
          then
            (if isBeforeOrEqual (aEnd st) bEnd
             then (st\<lparr>aStart := start b, aEnd := end_sel b, changed := True,
                      ignoreSelections := insert j (ignoreSelections st)\<rparr>,
                   i + 1)
             else if isEqual (aStart st) bStart
             then (st\<lparr>ignoreSelections := insert j (ignoreSelections st),
                      newSelections :=
                        (case newSelections st of
                           None \<Rightarrow> Some (take i sels)
                         | Some new \<Rightarrow> Some new)\<rparr>,
                   j + 1)
             else (st\<lparr>aStart := bStart, changed := True,
                      ignoreSelections := insert j (ignoreSelections st)\<rparr>,
                   i + 1))
          else if (isAfter (aEnd st) bStart \<or>
                   (alsoMergeConsecutiveSelections \<and> isEqual (aEnd st) bStart)) \<and>
                  isBeforeOrEqual (aEnd st) bEnd
          then (st\<lparr>aEnd := bEnd, changed := True,
                   ignoreSelections := insert j (ignoreSelections st)\<rparr>,
                i + 1)
          else (st, j + 1))"

lemma merge_inner_step_marks:
  assumes "merge_inner_step c sels i j st = (st', j')"
  shows "(ignoreSelections st' = ignoreSelections st \<and> j' = j + 1) \<or>
         (j \<notin> ignoreSelections st \<and> ignoreSelections st' = insert j (ignoreSelections st))"
  using assms unfolding merge_inner_step_def Let_def
  by (auto split: if_splits)

lemma merge_inner_step_decreases:
  assumes lt: "j < length sels" and step: "merge_inner_step c sels i j st = (st', j')"
  shows "((card ({..<length sels} - ignoreSelections st'), length sels - j'),
          (card ({..<length sels} - ignoreSelections st), length sels - j))
         \<in> less_than <*lex*> less_than"
  using merge_inner_step_marks [OF step]
proof
  assume "ignoreSelections st' = ignoreSelections st \<and> j' = j + 1"
  with lt show ?thesis by auto
next
  assume a: "j \<notin> ignoreSelections st \<and> ignoreSelections st' = insert j (ignoreSelections st)"
  have "{..<length sels} - insert j (ignoreSelections st)
        \<subset> {..<length sels} - ignoreSelections st"
    using a lt by auto
  then have "card ({..<length sels} - insert j (ignoreSelections st))
        < card ({..<length sels} - ignoreSelections st)"
    by (intro psubset_card_mono) auto
  with a show ?thesis by simp
qed

text \<open>The inner loop. A round either moves on to \<open>j + 1\<close> or marks one more index, so the
  loop ends.\<close>

function merge_inner ::
  "bool \<Rightarrow> selection list \<Rightarrow> nat \<Rightarrow> nat \<Rightarrow> scan_state \<Rightarrow> scan_state" where
  "merge_inner c sels i j st =
     (if j < length sels
      then (case merge_inner_step c sels i j st of (st', j') \<Rightarrow> merge_inner c sels i j' st')
      else st)"
  by pat_completeness auto
termination
  apply (relation "inv_image (less_than <*lex*> less_than)
    (\<lambda>(c, sels, i, j, st). (card ({..<length sels} - ignoreSelections st), length sels - j))")
   apply (intro wf_inv_image wf_lex_prod wf_less_than)
  apply (simp only: in_inv_image prod.case)
  apply (rule merge_inner_step_decreases)
   apply assumption
  apply (erule sym)
  done

declare merge_inner.simps [simp del]

text \<open>
  One round of the outer loop \<^verbatim>\<open>for (let i = 0; i < len; i++)\<close>: a marked index is
  skipped; otherwise the selection \<open>a\<close> at \<open>i\<close> is scanned against the later ones, and
  the merged selection, or \<open>a\<close> itself, is pushed to \<^verbatim>\<open>newSelections\<close> where that array
  exists by then.
\<close>

definition merge_outer_step ::
  "bool \<Rightarrow> bool \<Rightarrow> selection list \<Rightarrow> nat \<Rightarrow> merge_state \<Rightarrow> merge_state" where
  "merge_outer_step emptyIsReversed c sels i st =
    (if i \<in> ignoreSelections st then st
     else
       let a = sels ! i;
           sc = merge_inner c sels i (i + 1)
                  \<lparr>ignoreSelections = ignoreSelections st, newSelections = newSelections st,
                   aStart = start a, aEnd = end_sel a,
                   aIsEmpty = isEqual (start a) (end_sel a), changed = False\<rparr>
       in if changed sc then
            \<lparr>ignoreSelections = ignoreSelections sc,
             newSelections =
               Some ((case newSelections sc of None \<Rightarrow> take i sels | Some new \<Rightarrow> new)
                     @ [fromStartEnd (aStart sc) (aEnd sc) (isReversed emptyIsReversed a)])\<rparr>
          else
            (case newSelections sc of
               Some new \<Rightarrow> \<lparr>ignoreSelections = ignoreSelections sc, newSelections = Some (new @ [a])\<rparr>
             | None \<Rightarrow> \<lparr>ignoreSelections = ignoreSelections sc, newSelections = None\<rparr>))"

function merge_outer ::
  "bool \<Rightarrow> bool \<Rightarrow> selection list \<Rightarrow> nat \<Rightarrow> merge_state \<Rightarrow> merge_state" where
  "merge_outer emptyIsReversed c sels i st =
     (if i < length sels
      then merge_outer emptyIsReversed c sels (i + 1) (merge_outer_step emptyIsReversed c sels i st)
      else st)"
  by pat_completeness auto
termination
  by (relation "measure (\<lambda>(e, c, sels, i, st). length sels - i)") auto

declare merge_outer.simps [simp del]

text \<open>\<^verbatim>\<open>merge\<close> on the array of the collection, and the two entry points.\<close>

definition merge_run :: "bool \<Rightarrow> bool \<Rightarrow> selection list \<Rightarrow> merge_state" where
  "merge_run emptyIsReversed c sels =
     merge_outer emptyIsReversed c sels 0 \<lparr>ignoreSelections = {}, newSelections = None\<rparr>"

definition merge :: "bool \<Rightarrow> bool \<Rightarrow> selection list \<Rightarrow> selection list" where
  "merge emptyIsReversed c sels =
     (case newSelections (merge_run emptyIsReversed c sels) of
        Some new \<Rightarrow> new
      | None \<Rightarrow> sels)"

definition mergeOverlapping :: "bool \<Rightarrow> Selections \<Rightarrow> Selections" where
  "mergeOverlapping emptyIsReversed S =
     S\<lparr>selections := merge emptyIsReversed False (selections S)\<rparr>"

definition mergeConsecutive :: "bool \<Rightarrow> Selections \<Rightarrow> Selections" where
  "mergeConsecutive emptyIsReversed S =
     S\<lparr>selections := merge emptyIsReversed True (selections S)\<rparr>"

text \<open>The half-open spans \<open>[start, end)\<close> of two selections intersect when the larger
  start lies before the smaller end (the reading of "overlap" in the spec's merge contract).\<close>

definition spans_intersect :: "selection \<Rightarrow> selection \<Rightarrow> bool" where
  "spans_intersect a b = (max (start a) (start b) < min (end_sel a) (end_sel b))"

section \<open>Predicates of the proofs\<close>

text \<open>The bounds of the scanned selection stay ordered, and \<open>aIsEmpty\<close> says whether they
  coincide.\<close>

definition scan_ok :: "scan_state \<Rightarrow> bool" where
  "scan_ok st \<longleftrightarrow> aStart st \<le> aEnd st \<and> (aIsEmpty st \<longleftrightarrow> aStart st = aEnd st)"

text \<open>The state in which the outer loop starts the scan of the selection \<open>a\<close>.\<close>

definition scan_init :: "merge_state \<Rightarrow> selection \<Rightarrow> scan_state" where
  "scan_init st a =
     \<lparr>ignoreSelections = ignoreSelections st, newSelections = newSelections st,
      aStart = start a, aEnd = end_sel a,
      aIsEmpty = isEqual (start a) (end_sel a), changed = False\<rparr>"

text \<open>After \<open>i\<close> rounds of the outer loop: no index is marked while \<open>newSelections\<close> is
  undefined, and the directions in \<open>newSelections\<close> are those of the unmarked selections
  among the first \<open>i\<close>.\<close>

definition dir_inv :: "bool \<Rightarrow> selection list \<Rightarrow> nat \<Rightarrow> merge_state \<Rightarrow> bool" where
  "dir_inv er sels i st \<longleftrightarrow>
     (newSelections st = None \<longrightarrow> ignoreSelections st = {}) \<and>
     (\<forall>new. newSelections st = Some new \<longrightarrow>
        map (isReversed er) new
          = map (isReversed er) (nths (take i sels) (- ignoreSelections st)))"

text \<open>
  \<open>passes aS aE bS bE\<close>: a round of the inner loop without the flag, for a scanned selection
  with the bounds \<open>aS\<close>, \<open>aE\<close> and an unmarked selection \<open>b\<close> with the bounds \<open>bS\<close>, \<open>bE\<close>,
  takes none of the merging branches and leaves the state as it is (lemmas \<open>step_pass\<close>
  and \<open>step_absorb\<close>).
\<close>

definition passes :: "position \<Rightarrow> position \<Rightarrow> position \<Rightarrow> position \<Rightarrow> bool" where
  "passes aS aE bS bE =
     (if aS = aE then (if bS = bE then bS \<noteq> aS else \<not> bS \<le> aS)
      else \<not> (bS \<le> aS \<and> aS < bE) \<and> \<not> (bS < aE \<and> aE \<le> bE))"

definition pass_sel :: "selection \<Rightarrow> selection \<Rightarrow> bool" where
  "pass_sel a b = passes (start a) (end_sel a) (start b) (end_sel b)"

text \<open>The array is in the order of the start positions, as \<open>sort\<close> leaves it.\<close>

definition sorted_starts :: "selection list \<Rightarrow> bool" where
  "sorted_starts sels = sorted (map start sels)"

text \<open>
  The output as far as it is determined after \<open>i\<close> rounds of the outer loop, and the
  invariant of the outer loop on an array in start order: the output so far is pairwise
  \<open>pass_sel\<close>, and each of its selections starts no later than, and is \<open>pass_sel\<close> with, every
  unmarked selection still to come.
\<close>

definition out_of :: "selection list \<Rightarrow> nat \<Rightarrow> merge_state \<Rightarrow> selection list" where
  "out_of sels i st = (case newSelections st of Some new \<Rightarrow> new | None \<Rightarrow> take i sels)"

definition idem_inv :: "selection list \<Rightarrow> nat \<Rightarrow> merge_state \<Rightarrow> bool" where
  "idem_inv sels i st \<longleftrightarrow>
     (newSelections st = None \<longrightarrow> ignoreSelections st = {}) \<and>
     sorted_wrt pass_sel (out_of sels i st) \<and>
     (\<forall>u\<in>set (out_of sels i st). \<forall>j. i \<le> j \<and> j < length sels \<longrightarrow>
        start u \<le> start (sels ! j)) \<and>
     (\<forall>u\<in>set (out_of sels i st). \<forall>j. i \<le> j \<and> j < length sels \<and> j \<notin> ignoreSelections st \<longrightarrow>
        pass_sel u (sels ! j))"

section \<open>Basic facts\<close>

lemma isBefore_less [simp]: "isBefore p q \<longleftrightarrow> p < q"
  by (simp add: less_position_def)

lemma isBeforeOrEqual_le [simp]: "isBeforeOrEqual p q \<longleftrightarrow> p \<le> q"
  by (simp add: less_eq_position_def)

lemma isEqual_eq [simp]: "isEqual p q \<longleftrightarrow> p = q"
  by (cases p; cases q) (simp add: isEqual_def)

lemma isAfter_less [simp]: "isAfter p q \<longleftrightarrow> q < p"
  by (simp add: isAfter_def not_le)

lemma isAfterOrEqual_le [simp]: "isAfterOrEqual p q \<longleftrightarrow> q \<le> p"
  by (simp add: isAfterOrEqual_def not_less)

lemma Position_less [simp]:
  "Position l c < Position l' c' \<longleftrightarrow> l < l' \<or> (l = l' \<and> c < c')"
  unfolding less_position_def isBefore_def by simp

lemma Position_le [simp]:
  "Position l c \<le> Position l' c' \<longleftrightarrow> l < l' \<or> (l = l' \<and> c \<le> c')"
  unfolding less_eq_position_def isBeforeOrEqual_def isBefore_def isEqual_def by auto

lemma line_mono: "p \<le> q \<Longrightarrow> line p \<le> line q"
  by (cases p; cases q) auto

lemma start_min: "start s = min (anchor s) (active s)"
  by (auto simp: start_def min_def)

lemma end_sel_max: "end_sel s = max (anchor s) (active s)"
  by (auto simp: end_sel_def max_def)

lemma start_le_end [simp]: "start s \<le> end_sel s"
  by (simp add: start_min end_sel_max min_le_iff_disj)

lemma start_Selection [simp]: "start (Selection a b) = min a b"
  by (simp add: start_min)

lemma end_sel_Selection [simp]: "end_sel (Selection a b) = max a b"
  by (simp add: end_sel_max)

lemma endLine_shift_pos:
  "line (start s) \<noteq> line (end_sel s) \<Longrightarrow> 0 < line (end_sel s)"
  using line_mono [OF start_le_end [of s]] by simp

lemma Positions_previous_less: "Positions_previous p doc = Some q \<Longrightarrow> q < p"
  by (cases p) (auto simp: Positions_previous_def split: if_splits)

lemma Positions_next_greater: "Positions_next p doc = Some q \<Longrightarrow> p < q"
  by (cases p) (auto simp: Positions_next_def split: if_splits)

lemmas merge_eval =
  mergeOverlapping_def mergeConsecutive_def merge_def merge_run_def merge_outer.simps
  merge_outer_step_def merge_inner.simps merge_inner_step_def Selections_new_def sort_sel_def
  fromStartEnd_def isReversed_def Let_def

section \<open>The loops of the merge: rules and frame\<close>

text \<open>Invariant rules for the two loops: what holds before the loop and is kept by every
  round holds when the loop has ended.\<close>

lemma merge_inner_rule:
  assumes "P j st"
    and "\<And>j st st' j'. P j st \<Longrightarrow> j < length sels \<Longrightarrow>
            merge_inner_step c sels i j st = (st', j') \<Longrightarrow> P j' st'"
    and "\<And>j st. P j st \<Longrightarrow> \<not> j < length sels \<Longrightarrow> Q st"
  shows "Q (merge_inner c sels i j st)"
  using assms
proof (induction c sels i j st rule: merge_inner.induct)
  case (1 c sels i j st)
  show ?case
  proof (cases "j < length sels")
    case False
    with "1.prems" show ?thesis by (simp add: merge_inner.simps)
  next
    case True
    obtain st' j' where step: "merge_inner_step c sels i j st = (st', j')"
      by (cases "merge_inner_step c sels i j st")
    have P': "P j' st'" using "1.prems"(1,2) True step by blast
    have "Q (merge_inner c sels i j' st')"
      by (rule "1.IH" [OF True step [symmetric] P' "1.prems"(2,3)])
    with True step show ?thesis by (simp add: merge_inner.simps)
  qed
qed

lemma merge_outer_rule:
  assumes "P i st"
    and "\<And>i st. P i st \<Longrightarrow> i < length sels \<Longrightarrow> P (i + 1) (merge_outer_step e c sels i st)"
    and "\<And>i st. P i st \<Longrightarrow> \<not> i < length sels \<Longrightarrow> Q st"
  shows "Q (merge_outer e c sels i st)"
  using assms
proof (induction e c sels i st rule: merge_outer.induct)
  case (1 e c sels i st)
  show ?case
  proof (cases "i < length sels")
    case False
    with "1.prems" show ?thesis by (simp add: merge_outer.simps)
  next
    case True
    have P': "P (i + 1) (merge_outer_step e c sels i st)" using "1.prems"(1,2) True by blast
    have "Q (merge_outer e c sels (i + 1) (merge_outer_step e c sels i st))"
      by (rule "1.IH" [OF True P' "1.prems"(2,3)])
    with True show ?thesis by (simp add: merge_outer.simps)
  qed
qed

lemma step_scan_ok:
  assumes "scan_ok st" and "merge_inner_step c sels i j st = (st', j')"
  shows "scan_ok st'" and "aIsEmpty st' \<Longrightarrow> aIsEmpty st"
  using assms start_le_end [of "sels ! j"]
  unfolding merge_inner_step_def scan_ok_def Let_def
  by (auto simp del: start_le_end split: if_splits)

lemma step_frame:
  assumes "merge_inner_step c sels i j st = (st', j')"
  shows "ignoreSelections st \<subseteq> ignoreSelections st'"
    and "ignoreSelections st' \<subseteq> insert j (ignoreSelections st)"
    and "newSelections st' = newSelections st \<or>
         (newSelections st = None \<and> newSelections st' = Some (take i sels))"
    and "changed st \<Longrightarrow> changed st'"
    and "\<not> changed st' \<Longrightarrow> newSelections st' = None \<Longrightarrow> st' = st"
    and "j' = j + 1 \<or> j' = i + 1"
    and "\<not> changed st' \<Longrightarrow> aStart st' = aStart st \<and> aEnd st' = aEnd st"
  using assms
  unfolding merge_inner_step_def Let_def
  by (auto split: if_splits option.splits)

lemma merge_inner_frame:
  fixes c :: bool and sels :: "selection list" and i j0 :: nat and st0 :: scan_state
  assumes ok: "scan_ok st0" and lt: "i < j0"
  defines "sc \<equiv> merge_inner c sels i j0 st0"
  shows "scan_ok sc"
    and "aIsEmpty sc \<Longrightarrow> aIsEmpty st0"
    and "ignoreSelections st0 \<subseteq> ignoreSelections sc"
    and "ignoreSelections sc \<subseteq> ignoreSelections st0 \<union> {j. i < j}"
    and "newSelections sc = newSelections st0 \<or>
         (newSelections st0 = None \<and> newSelections sc = Some (take i sels))"
    and "\<not> changed sc \<Longrightarrow> newSelections sc = None \<Longrightarrow> sc = st0"
    and "\<not> changed sc \<Longrightarrow> aStart sc = aStart st0 \<and> aEnd sc = aEnd st0"
proof -
  let ?P = "\<lambda>j st. i < j \<and> scan_ok st \<and> (aIsEmpty st \<longrightarrow> aIsEmpty st0) \<and>
      ignoreSelections st0 \<subseteq> ignoreSelections st \<and>
      ignoreSelections st \<subseteq> ignoreSelections st0 \<union> {j. i < j} \<and>
      (newSelections st = newSelections st0 \<or>
         (newSelections st0 = None \<and> newSelections st = Some (take i sels))) \<and>
      (\<not> changed st \<and> newSelections st = None \<longrightarrow> st = st0) \<and>
      (\<not> changed st \<longrightarrow> aStart st = aStart st0 \<and> aEnd st = aEnd st0)"
  have "\<exists>j. ?P j sc"
    unfolding sc_def
  proof (rule merge_inner_rule [where P = ?P])
    show "?P j0 st0" using ok lt by simp
  next
    fix j st st' j'
    assume P: "?P j st" and "j < length sels"
      and step: "merge_inner_step c sels i j st = (st', j')"
    from P have ok': "scan_ok st" by simp
    note f = step_frame [OF step] step_scan_ok [OF ok' step]
    have "i < j'" using f(6) P by auto
    moreover have "\<not> changed st' \<and> newSelections st' = None \<longrightarrow> st' = st0"
      using f(5) P by auto
    moreover have "newSelections st' = newSelections st0 \<or>
         (newSelections st0 = None \<and> newSelections st' = Some (take i sels))"
      using f(3) P by auto
    moreover have "ignoreSelections st' \<subseteq> ignoreSelections st0 \<union> {j. i < j}"
      using f(2) P by auto
    moreover have "ignoreSelections st0 \<subseteq> ignoreSelections st'"
      using f(1) P by auto
    moreover have "\<not> changed st' \<longrightarrow> aStart st' = aStart st0 \<and> aEnd st' = aEnd st0"
      using f(4,7) P by auto
    ultimately show "?P j' st'" using f(8,9) P by blast
  next
    fix j st assume "?P j st"
    then show "\<exists>j. ?P j st" by blast
  qed
  then show "scan_ok sc"
    and "aIsEmpty sc \<Longrightarrow> aIsEmpty st0"
    and "ignoreSelections st0 \<subseteq> ignoreSelections sc"
    and "ignoreSelections sc \<subseteq> ignoreSelections st0 \<union> {j. i < j}"
    and "newSelections sc = newSelections st0 \<or>
         (newSelections st0 = None \<and> newSelections sc = Some (take i sels))"
    and "\<not> changed sc \<Longrightarrow> newSelections sc = None \<Longrightarrow> sc = st0"
    and "\<not> changed sc \<Longrightarrow> aStart sc = aStart st0 \<and> aEnd sc = aEnd st0"
    by blast+
qed

lemma isReversed_fromStartEnd:
  assumes "s \<le> e" and "s = e \<Longrightarrow> start a = end_sel a"
  shows "isReversed er (fromStartEnd s e (isReversed er a)) = isReversed er a"
  using assms
  by (cases a) (auto simp: isReversed_def fromStartEnd_def min_def max_def split: if_splits)

lemma start_end_fromStartEnd:
  "s \<le> e \<Longrightarrow> start (fromStartEnd s e r) = s \<and> end_sel (fromStartEnd s e r) = e"
  by (auto simp: fromStartEnd_def min_def max_def)

lemma scan_ok_init: "scan_ok (scan_init st a)"
  by (simp add: scan_ok_def scan_init_def)

lemma nths_cong_below:
  assumes "\<And>k. k < length xs \<Longrightarrow> (k \<in> A) = (k \<in> B)"
  shows "nths xs A = nths xs B"
proof -
  have "filter (\<lambda>p. snd p \<in> A) (zip xs [0..<length xs])
      = filter (\<lambda>p. snd p \<in> B) (zip xs [0..<length xs])"
    by (rule filter_cong [OF refl]) (auto simp: set_zip assms)
  then show ?thesis by (simp add: nths_def)
qed

lemma nths_take_Suc:
  assumes "i < length xs"
  shows "nths (take (Suc i) xs) A = nths (take i xs) A @ (if i \<in> A then [xs ! i] else [])"
  using assms by (simp add: take_Suc_conv_app_nth nths_append nths_singleton min_def)

lemma merge_outer_step_unmarked:
  assumes "i \<notin> ignoreSelections st"
  shows "merge_outer_step er c sels i st =
    (let a = sels ! i; sc = merge_inner c sels i (i + 1) (scan_init st a)
     in if changed sc then
          \<lparr>ignoreSelections = ignoreSelections sc,
           newSelections =
             Some ((case newSelections sc of None \<Rightarrow> take i sels | Some new \<Rightarrow> new)
                   @ [fromStartEnd (aStart sc) (aEnd sc) (isReversed er a)])\<rparr>
        else
          (case newSelections sc of
             Some new \<Rightarrow> \<lparr>ignoreSelections = ignoreSelections sc, newSelections = Some (new @ [a])\<rparr>
           | None \<Rightarrow> \<lparr>ignoreSelections = ignoreSelections sc, newSelections = None\<rparr>))"
  using assms by (simp add: merge_outer_step_def scan_init_def)

lemma dir_inv_step:
  assumes inv: "dir_inv er sels i st" and lt: "i < length sels"
  shows "dir_inv er sels (i + 1) (merge_outer_step er c sels i st)"
proof (cases "i \<in> ignoreSelections st")
  case True
  then have "merge_outer_step er c sels i st = st"
    by (simp add: merge_outer_step_def)
  moreover have "nths (take (Suc i) sels) (- ignoreSelections st)
      = nths (take i sels) (- ignoreSelections st)"
    using True lt by (simp add: nths_take_Suc)
  ultimately show ?thesis using inv True by (auto simp: dir_inv_def)
next
  case False
  define a where "a = sels ! i"
  define sc where "sc = merge_inner c sels i (i + 1) (scan_init st a)"
  have ok: "scan_ok sc"
    and em: "aIsEmpty sc \<Longrightarrow> aIsEmpty (scan_init st a)"
    and sub1: "ignoreSelections (scan_init st a) \<subseteq> ignoreSelections sc"
    and sub2: "ignoreSelections sc \<subseteq> ignoreSelections (scan_init st a) \<union> {j. i < j}"
    and new: "newSelections sc = newSelections (scan_init st a) \<or>
         (newSelections (scan_init st a) = None \<and> newSelections sc = Some (take i sels))"
    and same: "\<not> changed sc \<Longrightarrow> newSelections sc = None \<Longrightarrow> sc = scan_init st a"
    unfolding sc_def
    using merge_inner_frame [where ?st0.0 = "scan_init st a" and i = i and ?j0.0 = "i + 1"
        and c = c and sels = sels, OF scan_ok_init]
    by simp_all
  have ign0 [simp]: "ignoreSelections (scan_init st a) = ignoreSelections st"
    and new0 [simp]: "newSelections (scan_init st a) = newSelections st"
    by (simp_all add: scan_init_def)
  have unmarked: "i \<notin> ignoreSelections sc" using sub2 False by auto
  have below: "nths (take i sels) (- ignoreSelections sc) = nths (take i sels) (- ignoreSelections st)"
    by (rule nths_cong_below) (use sub1 sub2 in auto)
  have suc: "nths (take (Suc i) sels) (- ignoreSelections sc)
      = nths (take i sels) (- ignoreSelections st) @ [a]"
    using unmarked lt below by (simp add: nths_take_Suc a_def)
  let ?base = "case newSelections sc of None \<Rightarrow> take i sels | Some new \<Rightarrow> new"
  have base: "newSelections sc = None \<longrightarrow> \<not> changed sc \<longrightarrow> ignoreSelections sc = {}"
    using same inv by (auto simp: dir_inv_def)
  have base': "changed sc \<or> newSelections sc \<noteq> None \<Longrightarrow>
      map (isReversed er) ?base = map (isReversed er) (nths (take i sels) (- ignoreSelections st))"
    using new inv by (auto simp: dir_inv_def nths_all split: option.splits)
  have dir: "isReversed er (fromStartEnd (aStart sc) (aEnd sc) (isReversed er a)) = isReversed er a"
  proof (rule isReversed_fromStartEnd)
    show "aStart sc \<le> aEnd sc" using ok by (simp add: scan_ok_def)
    assume "aStart sc = aEnd sc"
    then have "aIsEmpty sc" using ok by (simp add: scan_ok_def)
    then show "start a = end_sel a" using em by (simp add: scan_init_def)
  qed
  show ?thesis
    unfolding merge_outer_step_unmarked [OF False] Let_def a_def [symmetric] sc_def [symmetric]
    using base base' dir suc
    by (auto simp: dir_inv_def split: option.splits)
qed

lemma dir_inv_run: "dir_inv er sels (length sels) (merge_run er c sels)"
  unfolding merge_run_def
proof (rule merge_outer_rule [where P = "\<lambda>i st. i \<le> length sels \<and> dir_inv er sels i st"])
  show "0 \<le> length sels \<and> dir_inv er sels 0 \<lparr>ignoreSelections = {}, newSelections = None\<rparr>"
    by (simp add: dir_inv_def)
next
  fix i st assume "i \<le> length sels \<and> dir_inv er sels i st" "i < length sels"
  then show "i + 1 \<le> length sels \<and> dir_inv er sels (i + 1) (merge_outer_step er c sels i st)"
    using dir_inv_step by simp
next
  fix i st assume "i \<le> length sels \<and> dir_inv er sels i st" "\<not> i < length sels"
  then show "dir_inv er sels (length sels) st" by auto
qed

section \<open>The merge of an array in start order\<close>

text \<open>
  On an array in start order the start of the scanned selection never moves, and a round
  that merges sets its end to the larger of the two ends. A selection that passed an
  earlier output, together with everything it absorbs, still passes it (\<open>passes_absorb\<close>);
  so the output is pairwise \<open>pass_sel\<close>, and a second run of the merge changes nothing.
\<close>

lemma passes_absorb:
  assumes "oS \<le> aS" "aS \<le> bS" "aS \<le> aE" "bS \<le> bE" "oS \<le> oE"
    and "passes oS oE aS aE" "passes oS oE bS bE" "\<not> passes aS aE bS bE"
  shows "passes oS oE aS (max aE bE)"
  using assms unfolding passes_def max_def
  by (auto split: if_splits)

lemma step_pass:
  assumes "j \<notin> ignoreSelections st" "scan_ok st"
    and "passes (aStart st) (aEnd st) (start (sels ! j)) (end_sel (sels ! j))"
  shows "merge_inner_step False sels i j st = (st, j + 1)"
  using assms start_le_end [of "sels ! j"]
  unfolding merge_inner_step_def scan_ok_def passes_def Let_def
  by (auto simp del: start_le_end split: if_splits)

lemma step_marked:
  assumes "j \<in> ignoreSelections st"
  shows "merge_inner_step c sels i j st = (st, j + 1)"
  using assms unfolding merge_inner_step_def by simp

lemma step_absorb:
  assumes "j \<notin> ignoreSelections st" "scan_ok st" "aStart st \<le> start (sels ! j)"
    and "\<not> passes (aStart st) (aEnd st) (start (sels ! j)) (end_sel (sels ! j))"
    and "merge_inner_step False sels i j st = (st', j')"
  shows "ignoreSelections st' = insert j (ignoreSelections st)"
    and "aStart st' = aStart st"
    and "aEnd st' = max (aEnd st) (end_sel (sels ! j))"
    and "j' = i + 1 \<or> (j' = j + 1 \<and> (aEnd st' = aEnd st \<or>
           (aStart st = aEnd st \<and> start (sels ! j) = aStart st)))"
  using assms start_le_end [of "sels ! j"]
  unfolding merge_inner_step_def scan_ok_def passes_def Let_def max_def
  by (auto simp del: start_le_end split: if_splits)


lemma sorted_startsD:
  "sorted_starts sels \<Longrightarrow> k \<le> l \<Longrightarrow> l < length sels \<Longrightarrow> start (sels ! k) \<le> start (sels ! l)"
  unfolding sorted_starts_def
  using sorted_nth_mono [of "map start sels" k l] by simp

lemma merge_inner_sorted:
  fixes sels :: "selection list" and i :: nat and st0 :: scan_state and Out :: "selection set"
  assumes srt: "sorted_starts sels" and i: "i < length sels"
    and ok: "scan_ok st0" and s0: "aStart st0 = start (sels ! i)"
    and o1: "\<And>u. u \<in> Out \<Longrightarrow> start u \<le> start (sels ! i)"
    and o2: "\<And>u j. u \<in> Out \<Longrightarrow> i < j \<Longrightarrow> j < length sels \<Longrightarrow> j \<notin> ignoreSelections st0
                \<Longrightarrow> pass_sel u (sels ! j)"
    and o3: "\<And>u. u \<in> Out \<Longrightarrow> passes (start u) (end_sel u) (aStart st0) (aEnd st0)"
  defines "sc \<equiv> merge_inner False sels i (i + 1) st0"
  shows "aStart sc = start (sels ! i)"
    and "\<And>u. u \<in> Out \<Longrightarrow> passes (start u) (end_sel u) (aStart sc) (aEnd sc)"
    and "\<And>k. i < k \<Longrightarrow> k < length sels \<Longrightarrow> k \<notin> ignoreSelections sc
            \<Longrightarrow> passes (aStart sc) (aEnd sc) (start (sels ! k)) (end_sel (sels ! k))"
proof -
  let ?P = "\<lambda>j st. i < j \<and> scan_ok st \<and> ignoreSelections st0 \<subseteq> ignoreSelections st \<and>
      aStart st = start (sels ! i) \<and>
      (\<forall>u\<in>Out. passes (start u) (end_sel u) (aStart st) (aEnd st)) \<and>
      (\<forall>k. i < k \<and> k < j \<and> k < length sels \<and> k \<notin> ignoreSelections st \<longrightarrow>
           passes (aStart st) (aEnd st) (start (sels ! k)) (end_sel (sels ! k)))"
  let ?Q = "\<lambda>st. aStart st = start (sels ! i) \<and>
      (\<forall>u\<in>Out. passes (start u) (end_sel u) (aStart st) (aEnd st)) \<and>
      (\<forall>k. i < k \<and> k < length sels \<and> k \<notin> ignoreSelections st \<longrightarrow>
           passes (aStart st) (aEnd st) (start (sels ! k)) (end_sel (sels ! k)))"
  have "?Q sc"
    unfolding sc_def
  proof (rule merge_inner_rule [where P = ?P])
    show "?P (i + 1) st0" using ok s0 o3 by auto
  next
    fix j st assume "?P j st" "\<not> j < length sels"
    then show "?Q st" by auto
  next
    fix j st st' j'
    assume P: "?P j st" and j: "j < length sels"
      and step: "merge_inner_step False sels i j st = (st', j')"
    from P have ij: "i < j" and ok': "scan_ok st" and sub: "ignoreSelections st0 \<subseteq> ignoreSelections st"
      and aS: "aStart st = start (sels ! i)"
      and po: "\<And>u. u \<in> Out \<Longrightarrow> passes (start u) (end_sel u) (aStart st) (aEnd st)"
      and pk: "\<And>k. i < k \<Longrightarrow> k < j \<Longrightarrow> k < length sels \<Longrightarrow> k \<notin> ignoreSelections st \<Longrightarrow>
           passes (aStart st) (aEnd st) (start (sels ! k)) (end_sel (sels ! k))"
      by auto
    let ?b = "sels ! j"
    consider (marked) "j \<in> ignoreSelections st"
      | (pass) "j \<notin> ignoreSelections st"
          "passes (aStart st) (aEnd st) (start ?b) (end_sel ?b)"
      | (absorb) "j \<notin> ignoreSelections st"
          "\<not> passes (aStart st) (aEnd st) (start ?b) (end_sel ?b)"
      by blast
    then show "?P j' st'"
    proof cases
      case marked
      with step have eq: "st' = st" "j' = j + 1" by (simp_all add: step_marked)
      have "\<And>k. i < k \<Longrightarrow> k < j + 1 \<Longrightarrow> k < length sels \<Longrightarrow> k \<notin> ignoreSelections st \<Longrightarrow>
           passes (aStart st) (aEnd st) (start (sels ! k)) (end_sel (sels ! k))"
        using pk marked by (metis Suc_eq_plus1 less_antisym)
      with P eq show ?thesis by auto
    next
      case pass
      with step ok' have eq: "st' = st" "j' = j + 1" by (simp_all add: step_pass)
      have "\<And>k. i < k \<Longrightarrow> k < j + 1 \<Longrightarrow> k < length sels \<Longrightarrow> k \<notin> ignoreSelections st \<Longrightarrow>
           passes (aStart st) (aEnd st) (start (sels ! k)) (end_sel (sels ! k))"
        using pk pass by (metis Suc_eq_plus1 less_antisym)
      with P eq show ?thesis by auto
    next
      case absorb
      have le: "aStart st \<le> start ?b"
        using sorted_startsD [OF srt, of i j] ij j aS by simp
      note a = step_absorb [OF absorb(1) ok' le absorb(2) step]
      have ok'': "scan_ok st'" by (rule step_scan_ok(1) [OF ok' step])
      have j0: "j \<notin> ignoreSelections st0" using sub absorb(1) by auto
      have po': "passes (start u) (end_sel u) (aStart st') (aEnd st')" if "u \<in> Out" for u
        unfolding a(2) a(3)
      proof (rule passes_absorb)
        show "start u \<le> aStart st" using o1 [OF that] aS by simp
        show "aStart st \<le> start ?b" by (rule le)
        show "aStart st \<le> aEnd st" using ok' by (simp add: scan_ok_def)
        show "start ?b \<le> end_sel ?b" by simp
        show "start u \<le> end_sel u" by simp
        show "passes (start u) (end_sel u) (aStart st) (aEnd st)" by (rule po [OF that])
        show "passes (start u) (end_sel u) (start ?b) (end_sel ?b)"
          using o2 [OF that ij j j0] by (simp add: pass_sel_def)
        show "\<not> passes (aStart st) (aEnd st) (start ?b) (end_sel ?b)" by (rule absorb(2))
      qed
      have pk': "passes (aStart st') (aEnd st') (start (sels ! k)) (end_sel (sels ! k))"
        if k: "i < k" "k < j'" "k < length sels" "k \<notin> ignoreSelections st'" for k
      proof -
        from a(4) consider (restart) "j' = i + 1"
          | (same) "j' = j + 1" "aEnd st' = aEnd st"
          | (was_empty) "j' = j + 1" "aStart st = aEnd st" "start ?b = aStart st"
          by blast
        then show ?thesis
        proof cases
          case restart
          with k show ?thesis by simp
        next
          case same
          have "k \<noteq> j" using k(4) a(1) by auto
          with k same have "k < j" by simp
          moreover have "k \<notin> ignoreSelections st" using k(4) a(1) by auto
          ultimately show ?thesis using pk [OF k(1) _ k(3)] a(2) same(2) by simp
        next
          case was_empty
          have "k \<noteq> j" using k(4) a(1) by auto
          with k was_empty have kj: "k < j" by simp
          have kn: "k \<notin> ignoreSelections st" using k(4) a(1) by auto
          have "start (sels ! i) \<le> start (sels ! k)"
            using sorted_startsD [OF srt, of i k] k by simp
          moreover have "start (sels ! k) \<le> start (sels ! j)"
            using sorted_startsD [OF srt, of k j] kj j by simp
          ultimately have "start (sels ! k) = aStart st"
            using was_empty(3) aS by simp
          with pk [OF k(1) kj k(3) kn] was_empty(2) have False
            by (auto simp: passes_def split: if_splits)
          then show ?thesis ..
        qed
      qed
      have "i < j'" using a(4) ij by auto
      moreover have "ignoreSelections st0 \<subseteq> ignoreSelections st'" using sub a(1) by auto
      moreover have "aStart st' = start (sels ! i)" using a(2) aS by simp
      ultimately show ?thesis using ok'' po' pk' by blast
    qed
  qed
  then show "aStart sc = start (sels ! i)"
    and "\<And>u. u \<in> Out \<Longrightarrow> passes (start u) (end_sel u) (aStart sc) (aEnd sc)"
    and "\<And>k. i < k \<Longrightarrow> k < length sels \<Longrightarrow> k \<notin> ignoreSelections sc
            \<Longrightarrow> passes (aStart sc) (aEnd sc) (start (sels ! k)) (end_sel (sels ! k))"
    by blast+
qed


lemma idem_inv_step:
  assumes inv: "idem_inv sels i st" and lt: "i < length sels" and srt: "sorted_starts sels"
  shows "idem_inv sels (i + 1) (merge_outer_step er False sels i st)"
proof (cases "i \<in> ignoreSelections st")
  case True
  then have eq: "merge_outer_step er False sels i st = st"
    by (simp add: merge_outer_step_def)
  from True inv obtain new where "newSelections st = Some new"
    by (cases "newSelections st") (auto simp: idem_inv_def)
  then have "out_of sels (i + 1) st = out_of sels i st" by (simp add: out_of_def)
  with inv show ?thesis unfolding eq idem_inv_def by auto
next
  case False
  define a where "a = sels ! i"
  define sc where "sc = merge_inner False sels i (i + 1) (scan_init st a)"
  define out where "out = out_of sels i st"
  have ok: "scan_ok sc"
    and sub1: "ignoreSelections (scan_init st a) \<subseteq> ignoreSelections sc"
    and new: "newSelections sc = newSelections (scan_init st a) \<or>
         (newSelections (scan_init st a) = None \<and> newSelections sc = Some (take i sels))"
    and same: "\<not> changed sc \<Longrightarrow> newSelections sc = None \<Longrightarrow> sc = scan_init st a"
    and bounds: "\<not> changed sc \<Longrightarrow> aStart sc = aStart (scan_init st a) \<and> aEnd sc = aEnd (scan_init st a)"
    unfolding sc_def
    using merge_inner_frame [where ?st0.0 = "scan_init st a" and i = i and ?j0.0 = "i + 1"
        and c = False and sels = sels, OF scan_ok_init]
    by simp_all
  have ign0 [simp]: "ignoreSelections (scan_init st a) = ignoreSelections st"
    and new0 [simp]: "newSelections (scan_init st a) = newSelections st"
    and st0 [simp]: "aStart (scan_init st a) = start a" "aEnd (scan_init st a) = end_sel a"
    by (simp_all add: scan_init_def)
  have o1: "start u \<le> start (sels ! i)" if "u \<in> set out" for u
    using inv that lt unfolding idem_inv_def out_def by auto
  have o2: "pass_sel u (sels ! j)"
    if "u \<in> set out" "i < j" "j < length sels" "j \<notin> ignoreSelections (scan_init st a)" for u j
    using inv that unfolding idem_inv_def out_def by auto
  have o3: "passes (start u) (end_sel u) (aStart (scan_init st a)) (aEnd (scan_init st a))"
    if "u \<in> set out" for u
  proof -
    have "pass_sel u (sels ! i)"
      using inv that lt False unfolding idem_inv_def out_def by auto
    then show ?thesis by (simp add: pass_sel_def a_def scan_init_def)
  qed
  have s0: "aStart (scan_init st a) = start (sels ! i)"
    by (simp add: scan_init_def a_def)
  note s = merge_inner_sorted [where ?st0.0 = "scan_init st a" and Out = "set out" and sels = sels
      and i = i, OF srt lt scan_ok_init s0 o1 o2 o3, folded sc_def]
  have sS: "aStart sc = start a" using s(1) by (simp add: a_def)
  have sO: "passes (start u) (end_sel u) (aStart sc) (aEnd sc)" if "u \<in> set out" for u
    using s(2) that by (simp add: a_def)
  have sK: "passes (aStart sc) (aEnd sc) (start (sels ! k)) (end_sel (sels ! k))"
    if "i < k" "k < length sels" "k \<notin> ignoreSelections sc" for k
    using s(3) that by (simp add: a_def)
  define x where "x = (if changed sc
      then fromStartEnd (aStart sc) (aEnd sc) (isReversed er a) else a)"
  have xb: "start x = aStart sc \<and> end_sel x = aEnd sc"
    using ok bounds by (auto simp: x_def start_end_fromStartEnd scan_ok_def)
  have new': "newSelections sc = newSelections st \<or>
         (newSelections st = None \<and> newSelections sc = Some (take i sels))"
    using new by simp
  define st' where "st' = merge_outer_step er False sels i st"
  have res: "ignoreSelections st' = ignoreSelections sc \<and> out_of sels (i + 1) st' = out @ [x] \<and>
      (newSelections st' = None \<longrightarrow> \<not> changed sc \<and> newSelections sc = None)"
    unfolding st'_def merge_outer_step_unmarked [OF False] Let_def a_def [symmetric]
      sc_def [symmetric]
    using new' lt
    by (auto simp: out_of_def out_def x_def a_def take_Suc_conv_app_nth split: option.splits)
  have i1: "newSelections st' = None \<longrightarrow> ignoreSelections st' = {}"
  proof
    assume "newSelections st' = None"
    with res have "\<not> changed sc" "newSelections sc = None" by auto
    with same have "sc = scan_init st a" by simp
    then have "ignoreSelections sc = ignoreSelections st" "newSelections st = None"
      using \<open>newSelections sc = None\<close> by auto
    with inv res show "ignoreSelections st' = {}" by (auto simp: idem_inv_def)
  qed
  have i2: "sorted_wrt pass_sel (out @ [x])"
    using inv sO xb by (auto simp: sorted_wrt_append idem_inv_def out_def pass_sel_def)
  have i3: "start u \<le> start (sels ! j)"
    if "u \<in> set (out @ [x])" "i + 1 \<le> j" "j < length sels" for u j
  proof (cases "u = x")
    case True
    then show ?thesis using xb sS sorted_startsD [OF srt, of i j] that by (simp add: a_def)
  next
    case False
    with that inv show ?thesis by (auto simp: idem_inv_def out_def)
  qed
  have i4: "pass_sel u (sels ! j)"
    if "u \<in> set (out @ [x])" "i + 1 \<le> j" "j < length sels" "j \<notin> ignoreSelections st'" for u j
  proof (cases "u = x")
    case True
    then show ?thesis using xb sK [of j] that res by (simp add: pass_sel_def)
  next
    case False
    moreover have "j \<notin> ignoreSelections st" using that(4) res sub1 by auto
    ultimately show ?thesis using that inv by (auto simp: idem_inv_def out_def)
  qed
  show ?thesis
    unfolding idem_inv_def st'_def [symmetric]
    using i1 i2 i3 i4 res by auto
qed

lemma idem_inv_run:
  assumes "sorted_starts sels"
  shows "idem_inv sels (length sels) (merge_run er False sels)"
  unfolding merge_run_def
proof (rule merge_outer_rule [where P = "\<lambda>i st. i \<le> length sels \<and> idem_inv sels i st"])
  show "0 \<le> length sels \<and> idem_inv sels 0 \<lparr>ignoreSelections = {}, newSelections = None\<rparr>"
    by (simp add: idem_inv_def out_of_def)
next
  fix i st assume "i \<le> length sels \<and> idem_inv sels i st" "i < length sels"
  then show "i + 1 \<le> length sels \<and> idem_inv sels (i + 1) (merge_outer_step er False sels i st)"
    using idem_inv_step assms by simp
next
  fix i st assume "i \<le> length sels \<and> idem_inv sels i st" "\<not> i < length sels"
  then show "idem_inv sels (length sels) st" by auto
qed

lemma merge_output_passes:
  assumes "sorted_starts sels"
  shows "sorted_wrt pass_sel (merge er False sels)"
  using idem_inv_run [OF assms, of er]
  by (auto simp: idem_inv_def out_of_def merge_def split: option.splits)


lemma merge_inner_fix:
  assumes ok: "scan_ok st"
    and pass: "\<And>k. j \<le> k \<Longrightarrow> k < length sels \<Longrightarrow>
        k \<notin> ignoreSelections st \<and>
        passes (aStart st) (aEnd st) (start (sels ! k)) (end_sel (sels ! k))"
  shows "merge_inner False sels i j st = st"
proof (rule merge_inner_rule [where P = "\<lambda>j' st'. st' = st \<and> j \<le> j'"])
  show "st = st \<and> j \<le> j" by simp
next
  fix j' st' st'' j''
  assume P: "st' = st \<and> j \<le> j'" and lt: "j' < length sels"
    and step: "merge_inner_step False sels i j' st' = (st'', j'')"
  from pass [of j'] P lt have "merge_inner_step False sels i j' st = (st, j' + 1)"
    by (intro step_pass ok) auto
  with step P show "st'' = st \<and> j \<le> j''" by simp
next
  fix j' st' assume "st' = st \<and> j \<le> j'"
  then show "st' = st" by simp
qed

lemma merge_fixpoint:
  assumes "sorted_wrt pass_sel xs"
  shows "merge er False xs = xs"
proof -
  let ?init = "\<lparr>ignoreSelections = {}, newSelections = None\<rparr>"
  have "merge_run er False xs = ?init"
    unfolding merge_run_def
  proof (rule merge_outer_rule [where P = "\<lambda>i st. st = ?init"])
    fix i and st :: merge_state
    assume st: "st = ?init" and i: "i < length xs"
    have "merge_inner False xs i (i + 1) (scan_init st (xs ! i)) = scan_init st (xs ! i)"
    proof (rule merge_inner_fix [OF scan_ok_init])
      fix k assume "i + 1 \<le> k" "k < length xs"
      then have "pass_sel (xs ! i) (xs ! k)"
        using assms by (simp add: sorted_wrt_iff_nth_less)
      then show "k \<notin> ignoreSelections (scan_init st (xs ! i)) \<and>
          passes (aStart (scan_init st (xs ! i))) (aEnd (scan_init st (xs ! i)))
            (start (xs ! k)) (end_sel (xs ! k))"
        using st by (simp add: scan_init_def pass_sel_def)
    qed
    then show "merge_outer_step er False xs i st = ?init"
      using st by (simp add: merge_outer_step_unmarked scan_init_def)
  qed simp_all
  then show ?thesis by (simp add: merge_def)
qed

lemma merge_idempotent_sorted:
  assumes "sorted_starts sels"
  shows "merge er False (merge er False sels) = merge er False sels"
  by (rule merge_fixpoint [OF merge_output_passes [OF assms]])

lemma sorted_starts_new: "sorted_starts (selections (Selections_new sels primary))"
  by (simp add: Selections_new_def sort_sel_def sorted_starts_def)

section \<open>Claims about single selections\<close>

text \<open>
  C10. \<open>forward\<close> and \<open>backward\<close> return a selection with exactly the start and the end of
  their argument: they swap anchor and active, or leave them, and never change the two
  endpoints.
\<close>

theorem forward_backward_same_endpoints:
  "start (forward s) = start s \<and> end_sel (forward s) = end_sel s \<and>
   start (backward s) = start s \<and> end_sel (backward s) = end_sel s"
  by (cases s) (auto simp: forward_def backward_def min.commute max.commute)

text \<open>
  C6. For a selection whose start and end lie on one line, \<open>endLine\<close> is that line and
  \<open>endCharacter\<close> is \<open>end.character\<close>. For a selection over several lines whose
  \<open>end.character\<close> is 0, \<open>endLine\<close> is \<open>end.line - 1\<close> (and \<open>end.line\<close> is positive there),
  and \<open>endCharacter\<close> is the length of that line plus one, the line being a line of the
  document. Otherwise \<open>endLine\<close> is \<open>end.line\<close> and \<open>endCharacter\<close> is \<open>end.character\<close>.
  On the document with the lines "abc" and "def" the selection (0,0)-(1,0) has
  \<open>endLine\<close> 0, \<open>endCharacter\<close> 4 and \<open>endPosition\<close> (0,3).
\<close>

theorem endLine_endCharacter_cases:
  "(line (start s) = line (end_sel s) \<longrightarrow>
      endLine s = line (start s) \<and> endCharacter s doc = Inr (character (end_sel s))) \<and>
   (line (start s) \<noteq> line (end_sel s) \<and> character (end_sel s) = 0 \<longrightarrow>
      0 < line (end_sel s) \<and> endLine s = line (end_sel s) - 1 \<and>
      (line (end_sel s) - 1 < length doc \<longrightarrow>
         endCharacter s doc = Inr (length (doc ! (line (end_sel s) - 1)) + 1))) \<and>
   (line (start s) \<noteq> line (end_sel s) \<and> character (end_sel s) \<noteq> 0 \<longrightarrow>
      endLine s = line (end_sel s) \<and> endCharacter s doc = Inr (character (end_sel s))) \<and>
   endLine (Selection (Position 0 0) (Position 1 0)) = 0 \<and>
   endCharacter (Selection (Position 0 0) (Position 1 0)) [''abc'', ''def''] = Inr 4 \<and>
   endPosition (Selection (Position 0 0) (Position 1 0)) [''abc'', ''def''] = Inr (Position 0 3)"
  using endLine_shift_pos [of s]
  by (simp add: endLine_def endCharacter_def endPosition_def lineAt_def Let_def min_def max_def)

theorem endLine_endCharacter_cases_witness:
  "line (start (Selection (Position 0 0) (Position 1 0))) \<noteq>
     line (end_sel (Selection (Position 0 0) (Position 1 0))) \<and>
   character (end_sel (Selection (Position 0 0) (Position 1 0))) = 0 \<and>
   line (end_sel (Selection (Position 0 0) (Position 1 0))) - 1 < length [''abc'', ''def''] \<and>
   endLine (Selection (Position 0 0) (Position 1 0)) = 0 \<and>
   endCharacter (Selection (Position 0 0) (Position 1 0)) [''abc'', ''def''] = Inr 4 \<and>
   line (start (Selection (Position 0 1) (Position 0 3))) =
     line (end_sel (Selection (Position 0 1) (Position 0 3))) \<and>
   endLine (Selection (Position 0 1) (Position 0 3)) = 0 \<and>
   endCharacter (Selection (Position 0 1) (Position 0 3)) [''abc'', ''def''] = Inr 3 \<and>
   line (start (Selection (Position 1 2) (Position 0 1))) \<noteq>
     line (end_sel (Selection (Position 1 2) (Position 0 1))) \<and>
   character (end_sel (Selection (Position 1 2) (Position 0 1))) \<noteq> 0 \<and>
   endLine (Selection (Position 1 2) (Position 0 1)) = 1 \<and>
   endCharacter (Selection (Position 1 2) (Position 0 1)) [''abc'', ''def''] = Inr 2"
  using endLine_endCharacter_cases [of "Selection (Position 0 0) (Position 1 0)" "[''abc'', ''def'']"]
    endLine_endCharacter_cases [of "Selection (Position 0 1) (Position 0 3)" "[''abc'', ''def'']"]
    endLine_endCharacter_cases [of "Selection (Position 1 2) (Position 0 1)" "[''abc'', ''def'']"]
  by (simp add: min_def max_def)

lemma is_start_object_value:
  "is_start_object er s r \<Longrightarrow> object_position s r = start s"
  by (cases s; cases r)
    (auto simp: is_start_object_def object_position_def isReversed_def min_def split: if_splits)

lemma is_end_object_value:
  "is_end_object er s r \<Longrightarrow> object_position s r = end_sel s"
  by (cases s; cases r)
    (auto simp: is_end_object_def object_position_def isReversed_def max_def split: if_splits)

lemma isSingleCharacter_previous:
  assumes "isSingleCharacter s doc = Inr True"
  shows "start s < end_sel s" and "Positions_previous (end_sel s) doc = Some (start s)"
proof -
  obtain l c where st: "start s = Position l c" by (cases "start s")
  obtain l' c' where e: "end_sel s = Position l' c'" by (cases "end_sel s")
  from assms st e
  have "(l = l' \<and> int c = int c' - 1) \<or>
        (int l = int l' - 1 \<and> c' = 0 \<and> l < length doc \<and> length (doc ! l) = c)"
    by (auto simp: isSingleCharacter_def lineAt_def Let_def split: if_splits)
  then have "(l = l' \<and> c' = Suc c) \<or>
        (l' = Suc l \<and> c' = 0 \<and> l < length doc \<and> length (doc ! l) = c)"
    by auto
  then show "start s < end_sel s" and "Positions_previous (end_sel s) doc = Some (start s)"
    unfolding st e by (auto simp: Positions_previous_def)
qed

lemma isNonDirectional_facts:
  assumes "isNonDirectional er s ctx = Inr True"
  shows "selectionBehavior ctx = Character" and "anchor s < active s"
    and "Positions_previous (active s) (document ctx) = Some (anchor s)"
proof -
  from assms have ch: "selectionBehavior ctx = Character" and nr: "\<not> isReversed er s"
    and sc: "isSingleCharacter s (document ctx) = Inr True"
    by (auto simp: isNonDirectional_def split: if_splits)
  note p = isSingleCharacter_previous [OF sc]
  from p(1) have ne: "anchor s \<noteq> active s" by (auto simp: start_def end_sel_def split: if_splits)
  with nr have lt: "anchor s < active s" by (auto simp: isReversed_def)
  then have "start s = anchor s" "end_sel s = active s" by (simp_all add: start_def end_sel_def)
  with p(2) ch lt show "selectionBehavior ctx = Character" and "anchor s < active s"
    and "Positions_previous (active s) (document ctx) = Some (anchor s)"
    by simp_all
qed

text \<open>
  C8, as the code has it by design. In Caret mode \<open>seekFrom\<close> returns the reference unchanged, the
  reference being the selection's active position where none is given. In Character mode
  a reference that is the selection's start is returned unchanged by a forward seek, and
  a reference that is the selection's end by a backward seek; with the default reference
  that is the active position of a reversed selection for a forward seek, and the active
  position of a forward selection for a backward seek. On a non-directional selection (one
  character, not reversed) with the default reference, a forward seek returns the
  selection's start, which is the position one character \<^emph>\<open>before\<close> the active position,
  and a backward seek returns the active position. Nothing is said of a Character-mode
  seek on a directional selection from a reference that is not at that end of it.
\<close>

theorem seekFrom_caret_extreme_nondirectional:
  "(selectionBehavior ctx = Caret \<longrightarrow>
      seekFrom er s direction None ctx = active s \<and>
      seekFrom er s direction (Some r) ctx = object_position s r) \<and>
   (selectionBehavior ctx = Character \<and> is_start_object er s r \<longrightarrow>
      object_position s r = start s \<and> seekFrom er s Forward (Some r) ctx = start s) \<and>
   (selectionBehavior ctx = Character \<and> is_end_object er s r \<longrightarrow>
      object_position s r = end_sel s \<and> seekFrom er s Backward (Some r) ctx = end_sel s) \<and>
   (selectionBehavior ctx = Character \<and> active s < anchor s \<longrightarrow>
      seekFrom er s Forward None ctx = active s \<and> active s = start s) \<and>
   (selectionBehavior ctx = Character \<and> anchor s < active s \<longrightarrow>
      seekFrom er s Backward None ctx = active s \<and> active s = end_sel s) \<and>
   (isNonDirectional er s ctx = Inr True \<longrightarrow>
      seekFrom er s Forward None ctx = start s \<and>
      Positions_previous (active s) (document ctx) = Some (start s) \<and>
      start s < active s \<and>
      seekFrom er s Backward None ctx = active s)"
proof (intro conjI impI)
  assume "selectionBehavior ctx = Caret"
  then show "seekFrom er s direction None ctx = active s"
    and "seekFrom er s direction (Some r) ctx = object_position s r"
    by (simp_all add: seekFrom_def object_position_def)
next
  assume a: "selectionBehavior ctx = Character \<and> is_start_object er s r"
  then show "object_position s r = start s" by (auto intro: is_start_object_value)
  with a show "seekFrom er s Forward (Some r) ctx = start s" by (simp add: seekFrom_def)
next
  assume a: "selectionBehavior ctx = Character \<and> is_end_object er s r"
  then show "object_position s r = end_sel s" by (auto intro: is_end_object_value)
  with a show "seekFrom er s Backward (Some r) ctx = end_sel s" by (simp add: seekFrom_def)
next
  assume a: "selectionBehavior ctx = Character \<and> active s < anchor s"
  then show "seekFrom er s Forward None ctx = active s"
    by (auto simp: seekFrom_def is_start_object_def isReversed_def object_position_def Let_def)
  from a show "active s = start s" by (auto simp: start_def)
next
  assume a: "selectionBehavior ctx = Character \<and> anchor s < active s"
  then show "seekFrom er s Backward None ctx = active s"
    by (auto simp: seekFrom_def is_end_object_def isReversed_def object_position_def Let_def)
  from a show "active s = end_sel s" by (auto simp: end_sel_def)
next
  assume a: "isNonDirectional er s ctx = Inr True"
  note f = isNonDirectional_facts [OF a]
  from f(2) have st: "start s = anchor s" and en: "end_sel s = active s"
    by (simp_all add: start_def end_sel_def)
  from f(2) have nr: "\<not> isReversed er s" by (auto simp: isReversed_def)
  show "seekFrom er s Forward None ctx = start s"
    using f nr st by (simp add: seekFrom_def is_start_object_def object_position_def)
  show "Positions_previous (active s) (document ctx) = Some (start s)"
    using f(3) st by simp
  show "start s < active s" using f(2) st by simp
  show "seekFrom er s Backward None ctx = active s"
    using f nr by (simp add: seekFrom_def is_end_object_def object_position_def)
qed

theorem seekFrom_caret_extreme_nondirectional_witness:
  "selectionBehavior \<lparr>selectionBehavior = Caret, document = [''abcd'']\<rparr> = Caret \<and>
   seekFrom True (Selection (Position 0 1) (Position 0 3)) Forward None
      \<lparr>selectionBehavior = Caret, document = [''abcd'']\<rparr> = Position 0 3 \<and>
   is_start_object True (Selection (Position 0 1) (Position 0 3)) TheAnchor \<and>
   seekFrom True (Selection (Position 0 1) (Position 0 3)) Forward (Some TheAnchor)
      \<lparr>selectionBehavior = Character, document = [''abcd'']\<rparr> = Position 0 1 \<and>
   is_end_object True (Selection (Position 0 1) (Position 0 3)) TheActive \<and>
   seekFrom True (Selection (Position 0 1) (Position 0 3)) Backward (Some TheActive)
      \<lparr>selectionBehavior = Character, document = [''abcd'']\<rparr> = Position 0 3 \<and>
   Position 0 1 < Position 0 3 \<and>
   seekFrom True (Selection (Position 0 3) (Position 0 1)) Forward None
      \<lparr>selectionBehavior = Character, document = [''abcd'']\<rparr> = Position 0 1 \<and>
   seekFrom True (Selection (Position 0 1) (Position 0 3)) Backward None
      \<lparr>selectionBehavior = Character, document = [''abcd'']\<rparr> = Position 0 3 \<and>
   isNonDirectional True (Selection (Position 0 1) (Position 0 2))
      \<lparr>selectionBehavior = Character, document = [''abcd'']\<rparr> = Inr True \<and>
   seekFrom True (Selection (Position 0 1) (Position 0 2)) Forward None
      \<lparr>selectionBehavior = Character, document = [''abcd'']\<rparr> = Position 0 1 \<and>
   seekFrom True (Selection (Position 0 1) (Position 0 2)) Backward None
      \<lparr>selectionBehavior = Character, document = [''abcd'']\<rparr> = Position 0 2"
proof -
  have nd: "isNonDirectional True (Selection (Position 0 1) (Position 0 2))
      \<lparr>selectionBehavior = Character, document = [''abcd'']\<rparr> = Inr True"
    by (simp add: isNonDirectional_def isSingleCharacter_def isReversed_def min_def max_def)
  have so: "is_start_object True (Selection (Position 0 1) (Position 0 3)) TheAnchor"
    and eo: "is_end_object True (Selection (Position 0 1) (Position 0 3)) TheActive"
    by (simp_all add: is_start_object_def is_end_object_def isReversed_def)
  from nd so eo
    seekFrom_caret_extreme_nondirectional [of "\<lparr>selectionBehavior = Caret, document = [''abcd'']\<rparr>"
      True "Selection (Position 0 1) (Position 0 3)" Forward TheAnchor]
    seekFrom_caret_extreme_nondirectional [of
      "\<lparr>selectionBehavior = Character, document = [''abcd'']\<rparr>"
      True "Selection (Position 0 1) (Position 0 3)" Forward TheAnchor]
    seekFrom_caret_extreme_nondirectional [of
      "\<lparr>selectionBehavior = Character, document = [''abcd'']\<rparr>"
      True "Selection (Position 0 1) (Position 0 3)" Forward TheActive]
    seekFrom_caret_extreme_nondirectional [of
      "\<lparr>selectionBehavior = Character, document = [''abcd'']\<rparr>"
      True "Selection (Position 0 3) (Position 0 1)" Forward TheActive]
    seekFrom_caret_extreme_nondirectional [of
      "\<lparr>selectionBehavior = Character, document = [''abcd'']\<rparr>"
      True "Selection (Position 0 1) (Position 0 2)" Forward TheActive]
  show ?thesis by (simp add: min_def max_def)
qed

text \<open>
  C8 as stated fails, where the code does what its doc comment says. In Character mode
  on the document "abcd", the selection (0,1)-(0,2) is non-directional; a forward seek with
  the default reference, its active position (0,2), which is not its start, returns
  (0,1): the selection's start, "furthest from the given direction", and not (0,3), the
  position one character further forward.
\<close>

theorem seekFrom_forward_counterexample:
  "isNonDirectional True (Selection (Position 0 1) (Position 0 2))
      \<lparr>selectionBehavior = Character, document = [''abcd'']\<rparr> = Inr True \<and>
   active (Selection (Position 0 1) (Position 0 2))
     \<noteq> start (Selection (Position 0 1) (Position 0 2)) \<and>
   Positions_next (active (Selection (Position 0 1) (Position 0 2))) [''abcd'']
     = Some (Position 0 3) \<and>
   seekFrom True (Selection (Position 0 1) (Position 0 2)) Forward None
      \<lparr>selectionBehavior = Character, document = [''abcd'']\<rparr> = Position 0 1 \<and>
   seekFrom False (Selection (Position 0 1) (Position 0 2)) Forward None
      \<lparr>selectionBehavior = Character, document = [''abcd'']\<rparr> = Position 0 1 \<and>
   seekFrom True (Selection (Position 0 1) (Position 0 2)) Forward None
      \<lparr>selectionBehavior = Character, document = [''abcd'']\<rparr> \<noteq> Position 0 3"
  by (simp add: seekFrom_def isNonDirectional_def isSingleCharacter_def isReversed_def
      is_start_object_def object_position_def Positions_previous_def Positions_next_def
      min_def max_def)

section \<open>Claims about the collection\<close>

text \<open>
  C7, at an input where the code leaves the claim. On a collection of three selections
  whose primary selection is the first one, \<open>rotate (-2)\<close> computes the index
  \<open>(0 + -2) % 3 = -2\<close>, reads outside the array and leaves the primary selection
  undefined (the claim: index 1); \<open>rotate (3 - (-2 mod 3))\<close> after it then makes the
  second selection the primary one, not the first.
\<close>

theorem rotate_negative_loses_primary:
  "primarySelection (Selections_new
       [Selection (Position 0 0) (Position 0 1), Selection (Position 0 2) (Position 0 3),
        Selection (Position 0 4) (Position 0 5)] None)
     = Some (Selection (Position 0 0) (Position 0 1)) \<and>
   primarySelection (rotate (Selections_new
       [Selection (Position 0 0) (Position 0 1), Selection (Position 0 2) (Position 0 3),
        Selection (Position 0 4) (Position 0 5)] None) (- 2)) = None \<and>
   primarySelection (rotate (rotate (Selections_new
       [Selection (Position 0 0) (Position 0 1), Selection (Position 0 2) (Position 0 3),
        Selection (Position 0 4) (Position 0 5)] None) (- 2)) (3 - (- 2) mod 3))
     = Some (Selection (Position 0 2) (Position 0 3))"
  by (simp add: Selections_new_def sort_sel_def rotate_def indexOf_def js_remainder_def
      at_index_def Let_def min_def)

text \<open>
  C9, at an input where the code leaves the claim. The constructor applied to the empty
  array returns a collection with no selection and an undefined primary selection; it
  has no failing branch.
\<close>

theorem Selections_new_accepts_empty:
  "Selections_new [] None = \<lparr>primarySelection = None, selections = []\<rparr>"
  by (simp add: Selections_new_def sort_sel_def)

section \<open>Claims about the merge: runs of the code\<close>

text \<open>
  C1, at an input where the code leaves the claim. A selection that lies strictly inside
  an earlier one (it starts after the earlier one starts and ends before it ends) is not
  merged: on the selections (0,0)-(0,10) and (0,2)-(0,5), \<open>mergeOverlapping\<close> returns
  both, and their spans intersect.
\<close>

theorem mergeOverlapping_keeps_nested:
  "selections (mergeOverlapping emptyIsReversed (Selections_new
      [Selection (Position 0 0) (Position 0 10), Selection (Position 0 2) (Position 0 5)] None))
     = [Selection (Position 0 0) (Position 0 10), Selection (Position 0 2) (Position 0 5)] \<and>
   spans_intersect (Selection (Position 0 0) (Position 0 10))
     (Selection (Position 0 2) (Position 0 5))"
  by (simp add: merge_eval spans_intersect_def min_def max_def)

text \<open>
  C3, at an input where the code leaves the claim. The empty selection at (0,5) lies
  within the span of the selection (0,0)-(0,10) before it, and \<open>mergeOverlapping\<close> keeps
  both.
\<close>

theorem mergeOverlapping_keeps_inner_empty:
  "selections (mergeOverlapping emptyIsReversed (Selections_new
      [Selection (Position 0 0) (Position 0 10), Selection (Position 0 5) (Position 0 5)] None))
     = [Selection (Position 0 0) (Position 0 10), Selection (Position 0 5) (Position 0 5)] \<and>
   start (Selection (Position 0 0) (Position 0 10)) \<le> Position 0 5 \<and>
   Position 0 5 < end_sel (Selection (Position 0 0) (Position 0 10))"
  by (simp add: merge_eval min_def max_def)

text \<open>
  What the flag adds, test by test: a round of the inner loop that marks the index \<open>j\<close>
  without the flag also marks it with the flag, from the same state.
\<close>

lemma merge_inner_step_flag_marks:
  assumes "merge_inner_step False sels i j st = (st1, j1)"
    and "merge_inner_step True sels i j st = (st2, j2)"
    and "j \<in> ignoreSelections st1"
  shows "j \<in> ignoreSelections st2"
  using assms unfolding merge_inner_step_def Let_def
  by (auto split: if_splits)

text \<open>
  C4. The scenario of the claim holds: on (0,0)-(0,2) and (0,2)-(0,4),
  \<open>mergeOverlapping\<close> returns both selections and \<open>mergeConsecutive\<close> the one selection
  (0,0)-(0,4).
\<close>

lemma consecutive_scenario:
  "selections (mergeOverlapping emptyIsReversed (Selections_new
      [Selection (Position 0 0) (Position 0 2), Selection (Position 0 2) (Position 0 4)] None))
     = [Selection (Position 0 0) (Position 0 2), Selection (Position 0 2) (Position 0 4)] \<and>
   selections (mergeConsecutive emptyIsReversed (Selections_new
      [Selection (Position 0 0) (Position 0 2), Selection (Position 0 2) (Position 0 4)] None))
     = [Selection (Position 0 0) (Position 0 4)]"
  by (simp add: merge_eval min_def max_def)

text \<open>
  C4, at an input where the code leaves the general part of the claim. On (0,0)-(0,1),
  (0,1)-(0,3), (0,1)-(0,2), \<open>mergeOverlapping\<close> merges the third selection into the second
  (index 2 is marked). \<open>mergeConsecutive\<close> merges the second into the first (index 1 is
  marked) and then keeps the third, which now lies strictly inside the merged selection
  (0,0)-(0,3): the pair merged without the flag is not merged with it.
\<close>

theorem mergeConsecutive_not_superset:
  "merge emptyIsReversed False
      [Selection (Position 0 0) (Position 0 1), Selection (Position 0 1) (Position 0 3),
       Selection (Position 0 1) (Position 0 2)]
     = [Selection (Position 0 0) (Position 0 1), Selection (Position 0 1) (Position 0 3)] \<and>
   ignoreSelections (merge_run emptyIsReversed False
      [Selection (Position 0 0) (Position 0 1), Selection (Position 0 1) (Position 0 3),
       Selection (Position 0 1) (Position 0 2)]) = {2} \<and>
   merge emptyIsReversed True
      [Selection (Position 0 0) (Position 0 1), Selection (Position 0 1) (Position 0 3),
       Selection (Position 0 1) (Position 0 2)]
     = [Selection (Position 0 0) (Position 0 3), Selection (Position 0 1) (Position 0 2)] \<and>
   ignoreSelections (merge_run emptyIsReversed True
      [Selection (Position 0 0) (Position 0 1), Selection (Position 0 1) (Position 0 3),
       Selection (Position 0 1) (Position 0 2)]) = {1}"
  by (simp add: merge_eval min_def max_def)

section \<open>Claims about the merge: every input\<close>

lemma scan_keeps_direction:
  "isReversed er
     (fromStartEnd
        (aStart (merge_inner c sels i (i + 1) (scan_init st (sels ! i))))
        (aEnd (merge_inner c sels i (i + 1) (scan_init st (sels ! i))))
        (isReversed er (sels ! i)))
     = isReversed er (sels ! i)"
proof (rule isReversed_fromStartEnd)
  let ?sc = "merge_inner c sels i (i + 1) (scan_init st (sels ! i))"
  note f = merge_inner_frame [where ?st0.0 = "scan_init st (sels ! i)" and i = i
      and ?j0.0 = "i + 1" and c = c and sels = sels, OF scan_ok_init]
  show "aStart ?sc \<le> aEnd ?sc" using f(1) by (simp add: scan_ok_def)
  assume "aStart ?sc = aEnd ?sc"
  then have "aIsEmpty ?sc" using f(1) by (simp add: scan_ok_def)
  then show "start (sels ! i) = end_sel (sels ! i)" using f(2) by (simp add: scan_init_def)
qed

lemma merge_directions:
  "map (isReversed er) (merge er c sels)
     = map (isReversed er) (nths sels (- ignoreSelections (merge_run er c sels)))"
  using dir_inv_run [of er sels c]
  by (auto simp: dir_inv_def merge_def nths_all split: option.splits)

text \<open>
  C5. The selection that a round of the outer loop builds for the scanned selection
  \<open>a = sels ! i\<close> (the left operand: everything it absorbs has a larger index) has the
  direction of \<open>a\<close>, whatever was marked before and for both values of the flag. For
  both entry points: the directions of the output are, in order, the directions of the
  input selections that were not absorbed (the unmarked indices).
\<close>

theorem merge_keeps_first_direction:
  "isReversed er
     (fromStartEnd
        (aStart (merge_inner c sels i (i + 1)
           \<lparr>ignoreSelections = marks, newSelections = new,
            aStart = start (sels ! i), aEnd = end_sel (sels ! i),
            aIsEmpty = isEqual (start (sels ! i)) (end_sel (sels ! i)), changed = False\<rparr>))
        (aEnd (merge_inner c sels i (i + 1)
           \<lparr>ignoreSelections = marks, newSelections = new,
            aStart = start (sels ! i), aEnd = end_sel (sels ! i),
            aIsEmpty = isEqual (start (sels ! i)) (end_sel (sels ! i)), changed = False\<rparr>))
        (isReversed er (sels ! i)))
     = isReversed er (sels ! i) \<and>
   map (isReversed er) (selections (mergeOverlapping er S))
     = map (isReversed er)
         (nths (selections S) (- ignoreSelections (merge_run er False (selections S)))) \<and>
   map (isReversed er) (selections (mergeConsecutive er S))
     = map (isReversed er)
         (nths (selections S) (- ignoreSelections (merge_run er True (selections S))))"
  using scan_keeps_direction [of er c sels i "\<lparr>ignoreSelections = marks, newSelections = new\<rparr>"]
    merge_directions [of er False "selections S"] merge_directions [of er True "selections S"]
  by (simp add: scan_init_def mergeOverlapping_def mergeConsecutive_def)

text \<open>
  Where applying the merge twice changes nothing: on every array in the order of the
  start positions, and so on every collection as the constructor builds it.
\<close>

lemma mergeOverlapping_idempotent_sorted:
  "(sorted (map start (selections S)) \<longrightarrow>
      mergeOverlapping er (mergeOverlapping er S) = mergeOverlapping er S) \<and>
   mergeOverlapping er (mergeOverlapping er (Selections_new sels primary))
     = mergeOverlapping er (Selections_new sels primary)"
  using merge_idempotent_sorted [of "selections S" er]
    merge_idempotent_sorted [OF sorted_starts_new, of er sels primary]
  by (simp add: mergeOverlapping_def sorted_starts_def)

text \<open>
  C2, at an input where the code leaves the claim. \<open>split\<close> and \<open>selectWithin\<close> replace
  the array of a collection without sorting it. On the array (0,0)-(0,0), (0,1)-(0,2),
  (0,0)-(0,2) the empty selection passes the second selection and then absorbs the third;
  that round changes the bounds of the scanned selection and goes on with index 3
  (\<open>j + 1\<close>), where the rounds of the other branches that change the bounds start over at
  \<open>i + 1\<close>. So the first \<open>mergeOverlapping\<close> returns (0,0)-(0,2) and (0,1)-(0,2), whose
  spans intersect, and the second \<open>mergeOverlapping\<close> merges these two into (0,0)-(0,2):
  twice is not once. (The merged selection has the direction of the empty selection; the
  run is given for both answers of \<open>isReversed\<close> on it.)
\<close>

theorem mergeOverlapping_twice_differs:
  "selections (mergeOverlapping True
     \<lparr>primarySelection = None, selections =
       [Selection (Position 0 0) (Position 0 0), Selection (Position 0 1) (Position 0 2),
        Selection (Position 0 0) (Position 0 2)]\<rparr>)
     = [Selection (Position 0 2) (Position 0 0), Selection (Position 0 1) (Position 0 2)] \<and>
   spans_intersect (Selection (Position 0 2) (Position 0 0))
     (Selection (Position 0 1) (Position 0 2)) \<and>
   selections (mergeOverlapping True (mergeOverlapping True
     \<lparr>primarySelection = None, selections =
       [Selection (Position 0 0) (Position 0 0), Selection (Position 0 1) (Position 0 2),
        Selection (Position 0 0) (Position 0 2)]\<rparr>))
     = [Selection (Position 0 2) (Position 0 0)] \<and>
   selections (mergeOverlapping False
     \<lparr>primarySelection = None, selections =
       [Selection (Position 0 0) (Position 0 0), Selection (Position 0 1) (Position 0 2),
        Selection (Position 0 0) (Position 0 2)]\<rparr>)
     = [Selection (Position 0 0) (Position 0 2), Selection (Position 0 1) (Position 0 2)] \<and>
   spans_intersect (Selection (Position 0 0) (Position 0 2))
     (Selection (Position 0 1) (Position 0 2)) \<and>
   selections (mergeOverlapping False (mergeOverlapping False
     \<lparr>primarySelection = None, selections =
       [Selection (Position 0 0) (Position 0 0), Selection (Position 0 1) (Position 0 2),
        Selection (Position 0 0) (Position 0 2)]\<rparr>))
     = [Selection (Position 0 0) (Position 0 2)] \<and>
   snd (merge_inner_step False
     [Selection (Position 0 0) (Position 0 0), Selection (Position 0 1) (Position 0 2),
      Selection (Position 0 0) (Position 0 2)] 0 2
     \<lparr>ignoreSelections = {}, newSelections = None,
      aStart = Position 0 0, aEnd = Position 0 0, aIsEmpty = True, changed = False\<rparr>) = 3"
  by (simp add: merge_eval spans_intersect_def min_def max_def)

end
